theory Spec2Isabelle
  imports Complex_Main "HOL-Library.Multiset"
begin

section \<open>Bayescreen: the feature aggregator and the model scorer\<close>

text \<open>
  A shallow embedding of \<^verbatim>\<open>src/aggreagated_analysis.py\<close> and \<^verbatim>\<open>src/screen.py\<close>.

  Conventions of the embedding.
  \<^item> A Python float is an element of \<^typ>\<open>real\<close>: rounding is not modelled. Where the
    source can meet a NaN or an infinity (a cell of the descriptor table that does not
    parse, numpy's division by zero) the value is a constructor of a datatype of its own.
  \<^item> A Python int is an \<^typ>\<open>int\<close>.
  \<^item> Every exception the modelled code can raise is a value \<open>Inl e\<close> of a sum type.
  \<^item> The feature records of the aggregator are Python dicts that \<^verbatim>\<open>merge_features\<close>
    mutates in place and shares between its two argument lists, so they live in an
    explicit store and the lists hold references.
\<close>

subsection \<open>Interval overlap (aggreagated_analysis.py, lines 27-35)\<close>

text \<open>
  \<^verbatim>\<open>return max(0, min(a[1], b[1]) - max(a[0], b[0]))\<close>

  The docstring types both arguments as two-element arrays, hence pairs. The function
  returns the length of the overlap, a number; its caller applies \<^verbatim>\<open>bool\<close> to it.
\<close>

definition get_overlap :: "real \<times> real \<Rightarrow> real \<times> real \<Rightarrow> real" where
  "get_overlap a b = max 0 (min (snd a) (snd b) - max (fst a) (fst b))"

text \<open>Python's \<^verbatim>\<open>bool\<close> on a number: false exactly for zero.\<close>

definition py_bool :: "real \<Rightarrow> bool" where
  "py_bool x = (x \<noteq> 0)"

subsection \<open>Feature records and the store\<close>

text \<open>
  \<^verbatim>\<open>read_model\<close> (lines 52-57) builds each feature record as a dict with the keys
  \<^verbatim>\<open>"name"\<close>, \<^verbatim>\<open>"ratio"\<close>, \<^verbatim>\<open>"interval"\<close> and \<^verbatim>\<open>"cnt"\<close>, the last one set to \<open>1\<close>.
\<close>

record feature =
  name :: string
  interval :: "real \<times> real"
  ratio :: real
  cnt :: int

text \<open>
  The dicts are objects: \<^verbatim>\<open>features.append(val1)\<close> puts the very object of
  \<^verbatim>\<open>aux_features\<close> into \<^verbatim>\<open>features\<close>, and \<^verbatim>\<open>features[ix2]["ratio"] += ...\<close> updates an
  object in place. A store maps a reference to the record it holds; the two lists of
  \<^verbatim>\<open>merge_features\<close> are lists of references. The two list objects themselves are
  distinct (the merged list starts as a fresh \<^verbatim>\<open>[]\<close> in \<^verbatim>\<open>analyze_models\<close>), so they are
  values.
\<close>

type_synonym ref = nat

type_synonym store = "ref \<Rightarrow> feature"

text \<open>The store that holds the records \<open>xs\<close> at the references \<open>0, 1, \<dots>\<close>.\<close>

definition store_of :: "feature list \<Rightarrow> store" where
  "store_of xs r =
     (if r < length xs then xs ! r
      else \<lparr>name = [], interval = (0, 0), ratio = 0, cnt = 0\<rparr>)"

subsection \<open>Merging (aggreagated_analysis.py, lines 62-83)\<close>

text \<open>
  The test of line 74:
  \<^verbatim>\<open>val1["name"] == val2["name"] and bool(get_overlap(val1["interval"], val2["interval"]))\<close>
\<close>

definition intersects :: "store \<Rightarrow> ref \<Rightarrow> ref \<Rightarrow> bool" where
  "intersects h v1 r2 =
     (name (h v1) = name (h r2)
      \<and> py_bool (get_overlap (interval (h v1)) (interval (h r2))))"

text \<open>
  Lines 75-78, the three writes to the object \<^verbatim>\<open>features[ix2]\<close>, in the source's order.
  Each right-hand side is read from the store as it is at that statement, so that the
  case where \<^verbatim>\<open>val1\<close> is the object \<^verbatim>\<open>features[ix2]\<close> itself is covered.
\<close>

definition absorb :: "store \<Rightarrow> ref \<Rightarrow> ref \<Rightarrow> store" where
  "absorb h v1 r2 =
     (let h1 = h(r2 := (h r2)\<lparr>interval :=
                 (min (fst (interval (h v1))) (fst (interval (h r2))),
                  max (snd (interval (h v1))) (snd (interval (h r2))))\<rparr>);
          h2 = h1(r2 := (h1 r2)\<lparr>ratio := ratio (h1 r2) + ratio (h1 v1)\<rparr>);
          h3 = h2(r2 := (h2 r2)\<lparr>cnt := cnt (h2 r2) + 1\<rparr>)
      in h3)"

text \<open>
  The inner loop, lines 72-79: \<^verbatim>\<open>for ix2 in range(len(features))\<close>. The list is not
  changed while the loop runs; the state is the store and the flag \<^verbatim>\<open>intersected\<close>.
  There is no \<^verbatim>\<open>break\<close>: every entry is visited.
\<close>

fun merge_scan :: "ref \<Rightarrow> ref list \<Rightarrow> store \<times> bool \<Rightarrow> store \<times> bool" where
  "merge_scan v1 [] (h, intersected) = (h, intersected)"
| "merge_scan v1 (r2 # rs) (h, intersected) =
     (if intersects h v1 r2 then merge_scan v1 rs (absorb h v1 r2, True)
      else merge_scan v1 rs (h, intersected))"

text \<open>The body of the outer loop for one \<^verbatim>\<open>val1\<close>, lines 71-81.\<close>

definition merge_one :: "store \<Rightarrow> ref list \<Rightarrow> ref \<Rightarrow> store \<times> ref list" where
  "merge_one h features v1 =
     (case merge_scan v1 features (h, False) of
        (h', intersected) \<Rightarrow> (h', if intersected then features else features @ [v1]))"

text \<open>The outer loop, lines 70-83: \<^verbatim>\<open>for val1 in aux_features\<close>.\<close>

fun merge_features :: "store \<Rightarrow> ref list \<Rightarrow> ref list \<Rightarrow> store \<times> ref list" where
  "merge_features h features [] = (h, features)"
| "merge_features h features (v1 # aux_features) =
     (case merge_one h features v1 of
        (h', features') \<Rightarrow> merge_features h' features' aux_features)"

subsection \<open>The merging loop of analyze_models (aggreagated_analysis.py, lines 92-96)\<close>

text \<open>The merged list as the caller reads it: the records behind the references.\<close>

fun records :: "store \<times> ref list \<Rightarrow> feature list" where
  "records (h, features) = map h features"

text \<open>
  \<^verbatim>\<open>analyze_models\<close>, lines 92-96: the merged list starts empty and the list of every
  model is merged into it in turn. The argument \<open>features\<close> is the list so far.
\<close>

fun analyze_models_merge :: "store \<Rightarrow> ref list \<Rightarrow> ref list list \<Rightarrow> store \<times> ref list" where
  "analyze_models_merge h features [] = (h, features)"
| "analyze_models_merge h features (aux_features # models) =
     (case merge_features h features aux_features of
        (h', features') \<Rightarrow> analyze_models_merge h' features' models)"

text \<open>
  A predicate of the proofs only: two stores hold records of the same names and
  intervals at every reference.
\<close>

definition same_shape :: "store \<Rightarrow> store \<Rightarrow> bool" where
  "same_shape h h' = (\<forall>r. name (h' r) = name (h r) \<and> interval (h' r) = interval (h r))"

subsection \<open>The report (aggreagated_analysis.py, lines 98-111)\<close>

datatype error = IndexError | KeyError | ValueError | ZeroDivisionError | OverflowError

text \<open>Running a fallible function over a list, stopping at the first exception.\<close>

fun map_err :: "('a \<Rightarrow> error + 'b) \<Rightarrow> 'a list \<Rightarrow> error + 'b list" where
  "map_err f [] = Inr []"
| "map_err f (x # xs) =
     (case f x of
        Inl e \<Rightarrow> Inl e
      | Inr y \<Rightarrow> (case map_err f xs of Inl e \<Rightarrow> Inl e | Inr ys \<Rightarrow> Inr (y # ys)))"

text \<open>
  Lines 98-103. \<^verbatim>\<open>features_factors\<close> is a dict from a count to the list of the records
  with that count; a dict keeps its keys in insertion order, so it is an association list
  with distinct keys. \<open>factors_add\<close> is the body of the loop: a new key is added at the
  end with the one-element list, a known key gets the record appended to its list.
\<close>

fun factors_add :: "feature \<Rightarrow> (int \<times> feature list) list \<Rightarrow> (int \<times> feature list) list" where
  "factors_add val [] = [(cnt val, [val])]"
| "factors_add val ((k, vs) # rest) =
     (if cnt val = k then (k, vs @ [val]) # rest else (k, vs) # factors_add val rest)"

definition features_factors :: "feature list \<Rightarrow> (int \<times> feature list) list" where
  "features_factors features = fold factors_add features []"

text \<open>
  Line 109 prints \<^verbatim>\<open>name(lo;hi): ratio/cnt\<close>. A line is modelled by its four values; the
  division of a float by the int \<open>0\<close> raises \<^verbatim>\<open>ZeroDivisionError\<close>.
\<close>

type_synonym report_line = "string \<times> real \<times> real \<times> real"

definition report_line :: "feature \<Rightarrow> error + report_line" where
  "report_line val =
     (if cnt val = 0 then Inl ZeroDivisionError
      else Inr (name val, fst (interval val), snd (interval val),
                ratio val / real_of_int (cnt val)))"

text \<open>
  Line 108: \<^verbatim>\<open>sorted(features_factors[key], key=lambda x: x["ratio"], reverse=True)\<close>.
  Python's sort is stable also with \<^verbatim>\<open>reverse=True\<close>: records of equal ratio keep their
  order. That is the stable ascending sort on the negated ratio.
\<close>

definition sorted_by_ratio :: "feature list \<Rightarrow> feature list" where
  "sorted_by_ratio vals = sort_key (\<lambda>x. - ratio x) vals"

definition report_group :: "int \<times> feature list \<Rightarrow> error + (int \<times> report_line list)" where
  "report_group g =
     (case map_err report_line (sorted_by_ratio (snd g)) of
        Inl e \<Rightarrow> Inl e
      | Inr ls \<Rightarrow> Inr (fst g, ls))"

text \<open>
  Lines 106-111: \<^verbatim>\<open>for key in sorted(features_factors, reverse=True)\<close>, then the group
  \<^verbatim>\<open>features_factors[key]\<close>. The keys of a dict are distinct, so walking the entries in
  descending order of their keys is the same. The result is what is printed: for every
  key, in this order, the key and then the lines of its group. The compressed summary
  (lines 105, 110, 113-114) only formats the same values as text and is left out.
\<close>

definition analyze_models_report :: "feature list \<Rightarrow> error + (int \<times> report_line list) list" where
  "analyze_models_report features =
     map_err report_group (rev (sort_key fst (features_factors features)))"

subsection \<open>Example data: two models reporting the feature LogP\<close>

definition logp_a :: feature where
  "logp_a = \<lparr>name = ''LogP'', interval = (1, 2), ratio = 3, cnt = 1\<rparr>"

definition logp_b :: feature where
  "logp_b = \<lparr>name = ''LogP'', interval = (1.5, 2.5), ratio = 4, cnt = 1\<rparr>"

subsection \<open>Example data: three models whose LogP ranges chain\<close>

definition logp_p :: feature where
  "logp_p = \<lparr>name = ''LogP'', interval = (1, 2), ratio = 3, cnt = 1\<rparr>"

definition logp_q :: feature where
  "logp_q = \<lparr>name = ''LogP'', interval = (3, 4), ratio = 5, cnt = 1\<rparr>"

definition logp_r :: feature where
  "logp_r = \<lparr>name = ''LogP'', interval = (1.5, 3.5), ratio = 4, cnt = 1\<rparr>"

subsection \<open>Example data: one model with two features and a zero-width range\<close>

definition logp_c :: feature where
  "logp_c = \<lparr>name = ''LogP'', interval = (5, 6), ratio = 2, cnt = 1\<rparr>"

definition tpsa_z :: feature where
  "tpsa_z = \<lparr>name = ''TPSA'', interval = (7, 7), ratio = 1, cnt = 1\<rparr>"

subsection \<open>Example data: a merged list with three different counts\<close>

definition report_example :: "feature list" where
  "report_example =
     [\<lparr>name = ''LogP'', interval = (1, 3.5), ratio = 7, cnt = 2\<rparr>,
      \<lparr>name = ''LogP'', interval = (1.5, 4), ratio = 9, cnt = 2\<rparr>,
      \<lparr>name = ''LogP'', interval = (5, 6), ratio = 2, cnt = 1\<rparr>,
      \<lparr>name = ''TPSA'', interval = (7, 7), ratio = 1, cnt = 1\<rparr>,
      \<lparr>name = ''TPSA'', interval = (1, 2), ratio = 6, cnt = 3\<rparr>]"

section \<open>The scorer (screen.py)\<close>

subsection \<open>Values and containers of Python and numpy\<close>

text \<open>
  A float as the scorer can meet it: a finite number, NaN, or an infinity. NaN comes from
  a cell that does not parse and from numpy's \<open>0/0\<close>; the infinities from numpy's
  \<open>x/0\<close>. numpy warns on both divisions and raises nothing.
\<close>

datatype npfloat = Fin real | NaN | PosInf | NegInf

text \<open>
  \<^verbatim>\<open>m >>= f\<close> for results: the first exception ends the computation.
\<close>

definition bind_err :: "error + 'a \<Rightarrow> ('a \<Rightarrow> error + 'b) \<Rightarrow> error + 'b" where
  "bind_err m f = (case m of Inl e \<Rightarrow> Inl e | Inr x \<Rightarrow> f x)"

text \<open>
  \<^verbatim>\<open>xs[i]\<close> on a Python list: an index from \<open>-len(xs)\<close> to \<open>-1\<close> counts from the end,
  an index outside \<open>-len(xs) \<dots> len(xs) - 1\<close> raises \<^verbatim>\<open>IndexError\<close>.
\<close>

definition py_index :: "'a list \<Rightarrow> int \<Rightarrow> error + 'a" where
  "py_index xs i =
     (if 0 \<le> i \<and> i < int (length xs) then Inr (xs ! nat i)
      else if i < 0 \<and> - int (length xs) \<le> i then Inr (xs ! nat (int (length xs) + i))
      else Inl IndexError)"

text \<open>A dict filled by assignments in order: a later value for a key replaces the earlier.\<close>

definition dict_of :: "('k \<times> 'v) list \<Rightarrow> ('k \<rightharpoonup> 'v)" where
  "dict_of kvs = fold (\<lambda>kv m. m(fst kv \<mapsto> snd kv)) kvs Map.empty"

subsection \<open>The parts of the model (the JSON object read in main, lines 112-113)\<close>

record probs =
  feature_value_in_actives :: "real list list"
  feature_value_in_inactives :: "real list list"
  active :: real
  inactive :: real

record normalization =
  mins :: "real list"
  maxs :: "real list"
  imputation_values :: "real list"

subsection \<open>Scoring a feature vector (screen.py, lines 23-33)\<close>

text \<open>
  Lines 27-28 on a finite value:
  \<^verbatim>\<open>fv = int(math.floor(feature_value * cnt_bins)); if fv == cnt_bins: fv -= 1\<close>.
\<close>

definition get_bin :: "real \<Rightarrow> int \<Rightarrow> int" where
  "get_bin feature_value cnt_bins =
     (let fv = \<lfloor>feature_value * real_of_int cnt_bins\<rfloor>
      in if fv = cnt_bins then fv - 1 else fv)"

text \<open>
  The same on any float: \<^verbatim>\<open>math.floor\<close> of NaN raises \<^verbatim>\<open>ValueError\<close>, of an infinity
  \<^verbatim>\<open>OverflowError\<close>; an infinity times \<open>0\<close> is NaN.
\<close>

fun bin_index :: "npfloat \<Rightarrow> int \<Rightarrow> error + int" where
  "bin_index (Fin x) cnt_bins = Inr (get_bin x cnt_bins)"
| "bin_index NaN cnt_bins = Inl ValueError"
| "bin_index PosInf cnt_bins = (if cnt_bins = 0 then Inl ValueError else Inl OverflowError)"
| "bin_index NegInf cnt_bins = (if cnt_bins = 0 then Inl ValueError else Inl OverflowError)"

text \<open>
  \<^verbatim>\<open>math.log(a / b)\<close> on Python floats: the division by \<open>0\<close> raises
  \<^verbatim>\<open>ZeroDivisionError\<close>, the logarithm of a number that is not positive \<^verbatim>\<open>ValueError\<close>.
\<close>

definition log_ratio :: "real \<Rightarrow> real \<Rightarrow> error + real" where
  "log_ratio a b =
     (if b = 0 then Inl ZeroDivisionError
      else if a / b \<le> 0 then Inl ValueError
      else Inr (ln (a / b)))"

text \<open>
  Lines 27-30 for the feature at position \<open>ix\<close>: the bin, the two table look-ups (the
  table of the actives first), the logarithm of the quotient.
\<close>

definition feature_term :: "probs \<Rightarrow> int \<Rightarrow> nat \<Rightarrow> npfloat \<Rightarrow> error + real" where
  "feature_term probs cnt_bins ix feature_value =
     bind_err (bin_index feature_value cnt_bins) (\<lambda>fv.
     bind_err (py_index (feature_value_in_actives probs) (int ix)) (\<lambda>row_a.
     bind_err (py_index row_a fv) (\<lambda>a.
     bind_err (py_index (feature_value_in_inactives probs) (int ix)) (\<lambda>row_i.
     bind_err (py_index row_i fv) (\<lambda>b.
     log_ratio a b)))))"

text \<open>The loop of lines 26-31, with its state \<open>ix\<close> and \<open>score\<close>.\<close>

fun score_features :: "probs \<Rightarrow> int \<Rightarrow> npfloat list \<Rightarrow> nat \<Rightarrow> real \<Rightarrow> error + real" where
  "score_features probs cnt_bins [] ix score = Inr score"
| "score_features probs cnt_bins (feature_value # rest) ix score =
     (case feature_term probs cnt_bins ix feature_value of
        Inl e \<Rightarrow> Inl e
      | Inr l \<Rightarrow> score_features probs cnt_bins rest (ix + 1) (score + l))"

definition score_feature_vector :: "npfloat list \<Rightarrow> probs \<Rightarrow> int \<Rightarrow> error + real" where
  "score_feature_vector feature_vector probs cnt_bins =
     bind_err (score_features probs cnt_bins feature_vector 0 0) (\<lambda>score.
     bind_err (log_ratio (active probs) (inactive probs)) (\<lambda>l.
     Inr (score + l)))"

subsection \<open>Scoring the molecules (screen.py, lines 36-53)\<close>

text \<open>The model as a whole.\<close>

record model =
  features_names :: "string list"
  cnt_bins :: int
  probabilities :: probs
  normalization :: normalization






subsection \<open>Example data: the model of scenario A\<close>

definition model_a :: model where
  "model_a =
     \<lparr>features_names = [''A''],
      cnt_bins = 2,
      probabilities =
        \<lparr>feature_value_in_actives = [[0.5, 0.5]],
         feature_value_in_inactives = [[0.9, 0.1]],
         active = 0.5, inactive = 0.5\<rparr>,
      normalization = \<lparr>mins = [0], maxs = [10], imputation_values = [5]\<rparr>\<rparr>"

subsection \<open>Example data: two molecules, one of them without fragments\<close>



subsection \<open>Normalizing the descriptors (screen.py, lines 56-106)\<close>

text \<open>
  The descriptor table is the list of rows that \<^verbatim>\<open>csv.reader\<close> yields, each a list of
  strings. \<^verbatim>\<open>common.to_float\<close> is not among the sources; it is a parameter \<open>to_float\<close> that
  turns a cell into a float, NaN for a cell that does not parse (line 79 tests its result
  with \<^verbatim>\<open>math.isnan\<close>). The numbers of the model are finite.

  Lines 62-72, the body of the loop over the rows. The state is
  \<^verbatim>\<open>ixs_uncorr_features\<close>, \<^verbatim>\<open>features\<close> and \<^verbatim>\<open>fragments\<close>. An empty row is skipped. As long
  as no column has been selected the row is read as a header: the indices of the cells
  that are in \<^verbatim>\<open>feature_names\<close> are selected, from left to right, with an empty column of
  values for each. Any later row is a row of values: its first cell is the name of the
  fragment, and the cell at every selected index is appended to the column of that
  index (\<^verbatim>\<open>features\<close> has one column per selected index); a row too short for a
  selected index raises \<^verbatim>\<open>IndexError\<close>.
\<close>

fun read_row ::
  "string list \<Rightarrow> string list \<Rightarrow> nat list \<times> string list list \<times> string list
   \<Rightarrow> error + (nat list \<times> string list list \<times> string list)" where
  "read_row feature_names row (ixs, cols, frags) =
     (if row = [] then Inr (ixs, cols, frags)
      else if length ixs = 0 then
        (let sel = filter (\<lambda>ix. row ! ix \<in> set feature_names) [0..<length row]
         in Inr (ixs @ sel, cols @ map (\<lambda>ix. []) sel, frags))
      else if list_all (\<lambda>j. j < length row) ixs
      then Inr (ixs, map (\<lambda>(col, j). col @ [row ! j]) (zip cols ixs), frags @ [row ! 0])
      else Inl IndexError)"

fun read_rows ::
  "string list \<Rightarrow> string list list \<Rightarrow> nat list \<times> string list list \<times> string list
   \<Rightarrow> error + (nat list \<times> string list list \<times> string list)" where
  "read_rows feature_names [] st = Inr st"
| "read_rows feature_names (row # rows) st =
     (case read_row feature_names row st of
        Inl e \<Rightarrow> Inl e
      | Inr st' \<Rightarrow> read_rows feature_names rows st')"

text \<open>
  Line 79 for the column \<open>ix\<close>: a NaN is replaced by \<^verbatim>\<open>imputation_values[ix]\<close>, which is
  only read, and only then can raise \<^verbatim>\<open>IndexError\<close>, when the column holds a NaN.
\<close>

definition impute_col :: "real list \<Rightarrow> nat \<Rightarrow> npfloat list \<Rightarrow> error + npfloat list" where
  "impute_col imps ix col =
     map_err (\<lambda>x. if x = NaN
                   then (if ix < length imps then Inr (Fin (imps ! ix)) else Inl IndexError)
                   else Inr x) col"

text \<open>
  \<^verbatim>\<open>a.clip(lo, hi)\<close> of numpy is \<^verbatim>\<open>minimum(maximum(a, lo), hi)\<close>; a NaN stays a NaN.
\<close>

fun np_clip :: "real \<Rightarrow> real \<Rightarrow> npfloat \<Rightarrow> npfloat" where
  "np_clip lo hi (Fin x) = Fin (min (max x lo) hi)"
| "np_clip lo hi NaN = NaN"
| "np_clip lo hi PosInf = Fin hi"
| "np_clip lo hi NegInf = Fin (min lo hi)"

text \<open>
  Lines 85-86, the loop \<^verbatim>\<open>for ix in range(len(mins))\<close> over the rows of the array
  \<^verbatim>\<open>feature_matrix\<close> (one row per column of the table at this point).
  \<^verbatim>\<open>feature_matrix[ix]\<close> and \<^verbatim>\<open>maxs[ix]\<close> raise \<^verbatim>\<open>IndexError\<close> out of range. Lines 87-89
  only print.
\<close>

fun clip_rows ::
  "real list \<Rightarrow> real list \<Rightarrow> nat list \<Rightarrow> npfloat list list \<Rightarrow> error + npfloat list list" where
  "clip_rows mn mx [] fm = Inr fm"
| "clip_rows mn mx (ix # ixs) fm =
     (if ix < length fm \<and> ix < length mx
      then clip_rows mn mx ixs (fm[ix := map (np_clip (mn ! ix) (mx ! ix)) (fm ! ix)])
      else Inl IndexError)"

text \<open>
  Line 90: the transpose of the array of \<open>k\<close> columns with \<open>n\<close> values each is the array
  of \<open>n\<close> rows with \<open>k\<close> values each; \<open>n\<close> is the number of fragments.
\<close>

definition np_transpose :: "nat \<Rightarrow> 'a list list \<Rightarrow> 'a list list" where
  "np_transpose n cols = map (\<lambda>j. map (\<lambda>col. col ! j) cols) [0..<n]"

text \<open>
  Lines 91-92 are arithmetic of numpy arrays with broadcasting: two axes go together
  when they have the same length or one of them has length \<open>1\<close>, which is then
  repeated; otherwise numpy raises \<^verbatim>\<open>ValueError\<close>.
\<close>

definition bc_shape :: "nat \<Rightarrow> nat \<Rightarrow> error + nat" where
  "bc_shape a b =
     (if a = b then Inr a else if a = 1 then Inr b else if b = 1 then Inr a
      else Inl ValueError)"

definition stretch :: "nat \<Rightarrow> 'a list \<Rightarrow> 'a list" where
  "stretch w xs = (if length xs = w then xs else replicate w (xs ! 0))"

text \<open>
  Subtraction of a finite number and division by one, on floats. A division by zero is
  no exception in numpy: \<open>0/0\<close> is NaN and \<open>x/0\<close> an infinity of the sign of \<open>x\<close> (the
  zero is the \<open>+0\<close> that \<open>maxs - mins\<close> gives for equal values).
\<close>

fun np_sub :: "npfloat \<Rightarrow> real \<Rightarrow> npfloat" where
  "np_sub (Fin x) r = Fin (x - r)"
| "np_sub NaN r = NaN"
| "np_sub PosInf r = PosInf"
| "np_sub NegInf r = NegInf"

fun np_div :: "npfloat \<Rightarrow> real \<Rightarrow> npfloat" where
  "np_div (Fin x) d =
     (if d = 0 then (if x = 0 then NaN else if 0 < x then PosInf else NegInf)
      else Fin (x / d))"
| "np_div NaN d = NaN"
| "np_div PosInf d = (if 0 \<le> d then PosInf else NegInf)"
| "np_div NegInf d = (if 0 \<le> d then NegInf else PosInf)"

text \<open>
  Lines 91-92:
  \<^verbatim>\<open>(feature_matrix - np.array(mins)) / (np.array(maxs) - np.array(mins))\<close>
  on the transposed array, whose rows have \<open>k\<close> values.
\<close>

definition scale_rows ::
  "real list \<Rightarrow> real list \<Rightarrow> nat \<Rightarrow> npfloat list list \<Rightarrow> error + npfloat list list" where
  "scale_rows mn mx k rows =
     bind_err (bc_shape k (length mn)) (\<lambda>w1.
     bind_err (bc_shape (length mx) (length mn)) (\<lambda>w2.
     bind_err (bc_shape w1 w2) (\<lambda>w3.
     Inr (map (\<lambda>row.
            map2 np_div
              (stretch w3 (map2 np_sub (stretch w1 row) (stretch w1 mn)))
              (stretch w3 (map2 (-) (stretch w2 mx) (stretch w2 mn))))
          rows))))"

text \<open>
  The function, with the parser and the rows of the table in place of the file name.
  Lines 93-95 fill the dict from the fragment names to the rows of the array.
\<close>

definition get_normalized_features ::
  "(string \<Rightarrow> npfloat) \<Rightarrow> string list list \<Rightarrow> model \<Rightarrow> error + (string \<rightharpoonup> npfloat list)" where
  "get_normalized_features to_float rows model =
     bind_err (read_rows (features_names model) rows ([], [], [])) (\<lambda>(ixs, cols, frags).
     bind_err (map_err (\<lambda>ix. impute_col (imputation_values (normalization model)) ix
                               (map to_float (cols ! ix)))
                 [0..<length cols]) (\<lambda>features.
     bind_err (clip_rows (mins (normalization model)) (maxs (normalization model))
                 [0..<length (mins (normalization model))] features) (\<lambda>feature_matrix.
     bind_err (scale_rows (mins (normalization model)) (maxs (normalization model))
                 (length feature_matrix)
                 (np_transpose (length frags) feature_matrix)) (\<lambda>feature_matrix.
     Inr (dict_of (zip frags feature_matrix))))))"

text \<open>
  What the function computes from one cell with the parameters at position \<open>i\<close>, when
  every list of the normalization has an entry for every selected column: imputation,
  clipping, scaling. It serves to state the theorems.
\<close>

definition normalize_cell :: "(string \<Rightarrow> npfloat) \<Rightarrow> normalization \<Rightarrow> nat \<Rightarrow> string \<Rightarrow> npfloat" where
  "normalize_cell to_float nz i cell =
     np_div
       (np_sub
          (np_clip (mins nz ! i) (maxs nz ! i)
             (if to_float cell = NaN then Fin (imputation_values nz ! i) else to_float cell))
          (mins nz ! i))
       (maxs nz ! i - mins nz ! i)"

text \<open>The vector that a result of \<^verbatim>\<open>get_normalized_features\<close> holds for one fragment.\<close>

definition vector_of :: "error + (string \<rightharpoonup> npfloat list) \<Rightarrow> string \<Rightarrow> error + npfloat list option" where
  "vector_of r frag = (case r of Inl e \<Rightarrow> Inl e | Inr m \<Rightarrow> Inr (m frag))"

subsection \<open>Example data: descriptor tables\<close>

text \<open>A parser for the cells of the examples.\<close>

definition to_float_ex :: "string \<Rightarrow> npfloat" where
  "to_float_ex cell =
     (if cell = ''8'' then Fin 8 else if cell = ''5'' then Fin 5
      else if cell = ''0.5'' then Fin 0.5 else NaN)"

text \<open>A model with the features \<open>A\<close> and \<open>B\<close>, in this order.\<close>

definition model_ab :: model where
  "model_ab =
     \<lparr>features_names = [''A'', ''B''],
      cnt_bins = 2,
      probabilities =
        \<lparr>feature_value_in_actives = [[0.5, 0.5], [0.5, 0.5]],
         feature_value_in_inactives = [[0.9, 0.1], [0.9, 0.1]],
         active = 0.5, inactive = 0.5\<rparr>,
      normalization = \<lparr>mins = [0, 0], maxs = [1, 10], imputation_values = [0, 0]\<rparr>\<rparr>"

text \<open>A table that lists the two features in the model's order, and one that does not.\<close>

definition table_ab :: "string list list" where
  "table_ab = [[''Name'', ''A'', ''B''], [''f1'', ''0.5'', ''5'']]"

definition table_ba :: "string list list" where
  "table_ba = [[''Name'', ''B'', ''A''], [''f1'', ''5'', ''0.5'']]"

text \<open>The model of scenario A with a feature whose minimum and maximum are equal.\<close>

definition model_degenerate :: model where
  "model_degenerate =
     model_a\<lparr>normalization := \<lparr>mins = [5], maxs = [5], imputation_values = [5]\<rparr>\<rparr>"

definition table_a :: "string list list" where
  "table_a = [[''Name'', ''A''], [''f1'', ''8'']]"

section \<open>Theorems about the aggregator\<close>

subsection \<open>Interval overlap\<close>

lemma py_bool_get_overlap:
  "py_bool (get_overlap (a0, a1) (b0, b1)) = (max a0 b0 < min a1 b1)"
  by (auto simp: py_bool_def get_overlap_def)

text \<open>
  C1, as stated: for closed intervals with \<open>a0 \<le> a1\<close> and \<open>b0 \<le> b1\<close> the overlap
  predicate is true iff the intervals share at least one point, touching endpoints
  included. This fails: \<open>[1,2]\<close> and \<open>[2,3]\<close> are well-formed and share the point \<open>2\<close>,
  but the overlap length is \<open>0\<close> and the predicate is false. The same holds for the
  zero-width interval \<open>[1.5,1.5]\<close>, which lies inside \<open>[1,2]\<close>.
\<close>

theorem get_overlap_touching_counterexample:
  "(1::real) \<le> 2 \<and> (2::real) \<le> 3
   \<and> ((1::real) \<le> 2 \<and> (2::real) \<le> 2) \<and> ((2::real) \<le> 2 \<and> (2::real) \<le> 3)
   \<and> \<not> py_bool (get_overlap (1, 2) (2, 3))
   \<and> ((1::real) \<le> 1.5 \<and> (1.5::real) \<le> 2)
   \<and> \<not> py_bool (get_overlap (1.5, 1.5) (1, 2))"
  by (simp add: py_bool_def get_overlap_def)

text \<open>
  C1, amended: the overlap predicate is true iff the overlap has positive length,
  \<open>max a0 b0 < min a1 b1\<close>; equivalently iff the half-open intervals \<open>[a0,a1)\<close> and
  \<open>[b0,b1)\<close> share a point. Intervals that only touch at an endpoint and zero-width
  intervals give false.
\<close>

theorem get_overlap_positive_length:
  "(py_bool (get_overlap (a0, a1) (b0, b1)) = (max a0 b0 < min a1 b1))
   \<and> (py_bool (get_overlap (a0, a1) (b0, b1))
        = (\<exists>p. a0 \<le> p \<and> p < a1 \<and> b0 \<le> p \<and> p < b1))"
proof -
  have "(max a0 b0 < min a1 b1) = (\<exists>p. a0 \<le> p \<and> p < a1 \<and> b0 \<le> p \<and> p < b1)"
  proof
    assume "max a0 b0 < min a1 b1"
    then have "a0 \<le> max a0 b0 \<and> max a0 b0 < a1 \<and> b0 \<le> max a0 b0 \<and> max a0 b0 < b1"
      by simp
    then show "\<exists>p. a0 \<le> p \<and> p < a1 \<and> b0 \<le> p \<and> p < b1" by blast
  next
    assume "\<exists>p. a0 \<le> p \<and> p < a1 \<and> b0 \<le> p \<and> p < b1"
    then obtain p where "a0 \<le> p" "p < a1" "b0 \<le> p" "p < b1" by blast
    then show "max a0 b0 < min a1 b1" by simp
  qed
  then show ?thesis by (simp add: py_bool_get_overlap)
qed

subsection \<open>Merging one incoming record\<close>









lemma merge_features_single: "merge_features h features [v1] = merge_one h features v1"
  by (simp split: prod.splits)




text \<open>
  The two hypotheses on the references hold all along \<^verbatim>\<open>analyze_models\<close>: when every model
  brings records of its own, the merged list stays a list of distinct records, drawn
  from the lists merged so far.
\<close>

lemma merge_one_distinct:
  assumes "distinct features" and "v1 \<notin> set features"
  shows "distinct (snd (merge_one h features v1))
     \<and> set (snd (merge_one h features v1)) \<subseteq> insert v1 (set features)"
  using assms by (cases "merge_scan v1 features (h, False)") (auto simp: merge_one_def)

lemma merge_features_distinct:
  assumes "distinct features" and "distinct aux" and "set features \<inter> set aux = {}"
  shows "distinct (snd (merge_features h features aux))
     \<and> set (snd (merge_features h features aux)) \<subseteq> set features \<union> set aux"
  using assms
proof (induction aux arbitrary: h features)
  case Nil
  then show ?case by simp
next
  case (Cons v1 aux)
  obtain h' features' where one: "merge_one h features v1 = (h', features')"
    by (cases "merge_one h features v1")
  have v1: "v1 \<notin> set features" using Cons.prems(3) by auto
  have f': "distinct features'" "set features' \<subseteq> insert v1 (set features)"
    using merge_one_distinct [OF Cons.prems(1) v1, of h] one by auto
  have "distinct (snd (merge_features h' features' aux))
     \<and> set (snd (merge_features h' features' aux)) \<subseteq> set features' \<union> set aux"
  proof (rule Cons.IH [OF f'(1)])
    show "distinct aux" using Cons.prems(2) by simp
    show "set features' \<inter> set aux = {}" using f'(2) Cons.prems(2,3) by auto
  qed
  then show ?case using one f'(2) by auto
qed

subsection \<open>Merging a list twice\<close>

lemma merge_scan_none:
  "\<forall>r\<in>set fs. \<not> intersects h v1 r \<Longrightarrow> merge_scan v1 fs (h, b) = (h, b)"
  by (induction fs) simp_all

lemma merge_one_none:
  "\<forall>r\<in>set fs. \<not> intersects h v1 r \<Longrightarrow> merge_one h fs v1 = (h, fs @ [v1])"
  by (simp add: merge_one_def merge_scan_none)

lemma merge_scan_append:
  "merge_scan v1 (as @ bs) s = merge_scan v1 bs (merge_scan v1 as s)"
proof (induction as arbitrary: s)
  case Nil
  then show ?case by (cases s) simp
next
  case (Cons a as)
  then show ?case by (cases s) simp
qed

text \<open>
  When \<^verbatim>\<open>val1\<close> is the object \<^verbatim>\<open>features[ix2]\<close> itself, the interval is written back
  unchanged, the ratio is doubled and the count grows by one.
\<close>

lemma absorb_self:
  "absorb h x x = h(x := (h x)\<lparr>ratio := ratio (h x) + ratio (h x), cnt := cnt (h x) + 1\<rparr>)"
  by (simp add: absorb_def Let_def)

lemma intersects_absorb_self: "intersects (absorb h x x) a b = intersects h a b"
  by (simp add: absorb_self intersects_def)

lemma same_shape_intersects: "same_shape h h' \<Longrightarrow> intersects h' a b = intersects h a b"
  by (simp add: same_shape_def intersects_def)

lemma same_shape_absorb_self: "same_shape h h' \<Longrightarrow> same_shape h (absorb h' x x)"
  by (simp add: same_shape_def absorb_self)

text \<open>
  The first merge: records none of which matches another one are appended one by one,
  and the store is not written.
\<close>

lemma merge_features_disjoint:
  assumes "distinct aux" and "set fs \<inter> set aux = {}"
    and "\<forall>x\<in>set aux. \<forall>r\<in>set fs \<union> set aux. r \<noteq> x \<longrightarrow> \<not> intersects h x r"
  shows "merge_features h fs aux = (h, fs @ aux)"
  using assms
proof (induction aux arbitrary: fs)
  case Nil
  then show ?case by simp
next
  case (Cons x aux)
  have "\<forall>r\<in>set fs. \<not> intersects h x r"
    using Cons.prems by auto
  then have one: "merge_one h fs x = (h, fs @ [x])" by (rule merge_one_none)
  have "merge_features h (fs @ [x]) aux = (h, (fs @ [x]) @ aux)"
  proof (rule Cons.IH)
    show "distinct aux" using Cons.prems by simp
    show "set (fs @ [x]) \<inter> set aux = {}" using Cons.prems by auto
    show "\<forall>y\<in>set aux. \<forall>r\<in>set (fs @ [x]) \<union> set aux. r \<noteq> y \<longrightarrow> \<not> intersects h y r"
      using Cons.prems(3) by auto
  qed
  then show ?case using one by simp
qed

text \<open>
  The second merge meets every record as \<^verbatim>\<open>val1\<close> and as an entry of the merged list at
  once. A record that overlaps itself absorbs itself; one of zero width does not, and is
  appended a second time.
\<close>

lemma merge_one_self:
  assumes "fs = pre @ x # post" and "x \<notin> set pre" and "x \<notin> set post"
    and "intersects h x x"
    and "\<forall>r\<in>set fs. r \<noteq> x \<longrightarrow> \<not> intersects h x r"
  shows "merge_one h fs x = (absorb h x x, fs)"
proof -
  have pre: "\<forall>r\<in>set pre. \<not> intersects h x r"
    using assms(1,2,5) by auto
  have post: "\<forall>r\<in>set post. \<not> intersects (absorb h x x) x r"
    using assms(1,3,5) by (auto simp: intersects_absorb_self)
  have "merge_scan x fs (h, False) = merge_scan x (x # post) (merge_scan x pre (h, False))"
    by (simp only: assms(1) merge_scan_append)
  also have "\<dots> = merge_scan x (x # post) (h, False)"
    using pre by (simp only: merge_scan_none)
  also have "\<dots> = merge_scan x post (absorb h x x, True)"
    using assms(4) by simp
  also have "\<dots> = (absorb h x x, True)"
    using post by (rule merge_scan_none)
  finally show ?thesis by (simp add: merge_one_def)
qed

lemma merge_features_again:
  assumes L: "distinct L"
    and pair: "\<forall>x\<in>set L. \<forall>r\<in>set L. r \<noteq> x \<longrightarrow> \<not> intersects h x r"
  shows "distinct rest \<Longrightarrow> set rest \<subseteq> set L \<Longrightarrow> same_shape h h' \<Longrightarrow>
     set Z \<subseteq> {r \<in> set L. \<not> intersects h r r} \<Longrightarrow>
     \<forall>r\<in>set rest. cnt (h' r) = 1 \<Longrightarrow>
     \<forall>r\<in>set L - set rest. cnt (h' r) = (if intersects h r r then 2 else 1) \<Longrightarrow>
     \<exists>h'' Z'. merge_features h' (L @ Z) rest = (h'', L @ Z') \<and> same_shape h h''
        \<and> set Z' \<subseteq> set L
        \<and> (\<forall>r\<in>set L. cnt (h'' r) = (if intersects h r r then 2 else 1))"
proof (induction rest arbitrary: h' Z)
  case Nil
  then show ?case by auto
next
  case (Cons x rest)
  have xL: "x \<in> set L" and xr: "x \<notin> set rest" and dr: "distinct rest"
    and rL: "set rest \<subseteq> set L"
    using Cons.prems(1,2) by auto
  have others: "\<forall>r\<in>set (L @ Z). r \<noteq> x \<longrightarrow> \<not> intersects h' x r"
    using pair xL Cons.prems(4) by (auto simp: same_shape_intersects [OF Cons.prems(3)])
  show ?case
  proof (cases "intersects h x x")
    case False
    then have "\<forall>r\<in>set (L @ Z). \<not> intersects h' x r"
      using others by (metis same_shape_intersects [OF Cons.prems(3)])
    then have one: "merge_one h' (L @ Z) x = (h', L @ (Z @ [x]))"
      by (simp add: merge_one_none)
    have "\<exists>h'' Z'. merge_features h' (L @ (Z @ [x])) rest = (h'', L @ Z') \<and> same_shape h h''
        \<and> set Z' \<subseteq> set L
        \<and> (\<forall>r\<in>set L. cnt (h'' r) = (if intersects h r r then 2 else 1))"
    proof (rule Cons.IH [OF dr rL Cons.prems(3)])
      show "set (Z @ [x]) \<subseteq> {r \<in> set L. \<not> intersects h r r}"
        using Cons.prems(4) xL False by auto
      show "\<forall>r\<in>set rest. cnt (h' r) = 1" using Cons.prems(5) by simp
      show "\<forall>r\<in>set L - set rest. cnt (h' r) = (if intersects h r r then 2 else 1)"
      proof
        fix r assume r: "r \<in> set L - set rest"
        show "cnt (h' r) = (if intersects h r r then 2 else 1)"
        proof (cases "r = x")
          case True
          then show ?thesis using False Cons.prems(5) by simp
        next
          case neq: False
          then show ?thesis using r Cons.prems(6) by simp
        qed
      qed
    qed
    then show ?thesis using one by simp
  next
    case True
    then have self': "intersects h' x x"
      by (simp add: same_shape_intersects [OF Cons.prems(3)])
    obtain pre post where Leq: "L = pre @ x # post" and xpre: "x \<notin> set pre"
      using xL by (meson split_list_first)
    then have xpost: "x \<notin> set post" using L by auto
    have xZ: "x \<notin> set Z" using Cons.prems(4) True by auto
    have one: "merge_one h' (L @ Z) x = (absorb h' x x, L @ Z)"
    proof (rule merge_one_self [OF _ xpre _ self' others])
      show "L @ Z = pre @ x # (post @ Z)" using Leq by simp
      show "x \<notin> set (post @ Z)" using xpost xZ by simp
    qed
    have "\<exists>h'' Z'. merge_features (absorb h' x x) (L @ Z) rest = (h'', L @ Z')
        \<and> same_shape h h'' \<and> set Z' \<subseteq> set L
        \<and> (\<forall>r\<in>set L. cnt (h'' r) = (if intersects h r r then 2 else 1))"
    proof (rule Cons.IH [OF dr rL same_shape_absorb_self [OF Cons.prems(3)] Cons.prems(4)])
      show "\<forall>r\<in>set rest. cnt (absorb h' x x r) = 1"
        using Cons.prems(5) xr by (auto simp: absorb_self)
      show "\<forall>r\<in>set L - set rest. cnt (absorb h' x x r) = (if intersects h r r then 2 else 1)"
      proof
        fix r assume r: "r \<in> set L - set rest"
        show "cnt (absorb h' x x r) = (if intersects h r r then 2 else 1)"
        proof (cases "r = x")
          case eq: True
          then show ?thesis using True Cons.prems(5) by (simp add: absorb_self)
        next
          case neq: False
          then show ?thesis using r Cons.prems(6) by (simp add: absorb_self)
        qed
      qed
    qed
    then show ?thesis using one by simp
  qed
qed

text \<open>
  C4, as stated: merging the list of one model into the empty list and then merging the
  same list again leaves every count at most \<open>2\<close>. This fails when two records of the
  list have the same name and overlapping intervals: for \<open>LogP (1,2)\<close> and
  \<open>LogP (1.5,2.5)\<close> the first merge already folds the second record into the first
  (count \<open>2\<close>), and the second merge counts both records once more (count \<open>4\<close>).
\<close>

theorem merge_twice_counterexample:
  "records (analyze_models_merge (store_of [logp_a, logp_b]) [] [[0, 1], [0, 1]])
     = [\<lparr>name = ''LogP'', interval = (1, 2.5), ratio = 18, cnt = 4\<rparr>]"
  by (simp add: logp_a_def logp_b_def store_of_def merge_one_def intersects_def absorb_def
      py_bool_def get_overlap_def)

text \<open>
  The same with the second list holding fresh records of the same values (the report
  read a second time): the count is \<open>4\<close> again.
\<close>

lemma merge_twice_fresh_copy:
  "records (analyze_models_merge (store_of [logp_a, logp_b, logp_a, logp_b]) []
      [[0, 1], [2, 3]])
     = [\<lparr>name = ''LogP'', interval = (1, 2.5), ratio = 14, cnt = 4\<rparr>]"
  by (simp add: logp_a_def logp_b_def store_of_def merge_one_def intersects_def absorb_def
      py_bool_def get_overlap_def)

text \<open>
  C4, amended: for the list of one model (distinct records, each with count \<open>1\<close>) in
  which no two different records have the same name and overlapping intervals, the
  first merge gives the list itself, and after merging the same list again every entry
  has count at most \<open>2\<close>: count \<open>2\<close> if its interval has positive width, count \<open>1\<close>
  otherwise.
\<close>

theorem merge_twice_support:
  assumes "distinct L"
    and "\<forall>r\<in>set L. cnt (h r) = 1"
    and "\<forall>x\<in>set L. \<forall>r\<in>set L. r \<noteq> x \<longrightarrow> \<not> intersects h x r"
  shows "analyze_models_merge h [] [L] = (h, L)
     \<and> (\<forall>v\<in>set (records (analyze_models_merge h [] [L, L])). cnt v \<le> 2)
     \<and> (\<forall>v\<in>set (records (analyze_models_merge h [] [L, L])).
           cnt v = (if fst (interval v) < snd (interval v) then 2 else 1))"
proof -
  have first: "merge_features h [] L = (h, L)"
    using merge_features_disjoint [of L "[]" h] assms(1,3) by simp
  have "\<exists>h'' Z'. merge_features h (L @ []) L = (h'', L @ Z') \<and> same_shape h h''
        \<and> set Z' \<subseteq> set L
        \<and> (\<forall>r\<in>set L. cnt (h'' r) = (if intersects h r r then 2 else 1))"
    by (rule merge_features_again [OF assms(1,3)])
       (use assms in \<open>simp_all add: same_shape_def\<close>)
  then obtain h2 Z' where second: "merge_features h L L = (h2, L @ Z')"
    and shape: "same_shape h h2"
    and Z': "set Z' \<subseteq> set L"
    and c: "\<forall>r\<in>set L. cnt (h2 r) = (if intersects h r r then 2 else 1)"
    by auto
  have width: "intersects h r r = (fst (interval (h2 r)) < snd (interval (h2 r)))" for r
    using shape by (cases "interval (h r)") (simp add: same_shape_def intersects_def py_bool_get_overlap)
  have twice: "analyze_models_merge h [] [L, L] = (h2, L @ Z')"
    by (simp add: first second)
  have "\<forall>r\<in>set (L @ Z'). cnt (h2 r) = (if fst (interval (h2 r)) < snd (interval (h2 r)) then 2 else 1)"
    using Z' c width by auto
  then have "\<forall>v\<in>set (records (h2, L @ Z')). cnt v = (if fst (interval v) < snd (interval v) then 2 else 1)"
    by auto
  moreover from this have "\<forall>v\<in>set (records (h2, L @ Z')). cnt v \<le> 2"
    by auto
  ultimately show ?thesis by (simp only: twice) (simp add: first)
qed

theorem merge_twice_support_witness:
  "distinct [0, 1, 2 :: nat]
   \<and> map (\<lambda>r. cnt (store_of [logp_a, logp_c, tpsa_z] r)) [0, 1, 2] = [1, 1, 1]
   \<and> \<not> intersects (store_of [logp_a, logp_c, tpsa_z]) 0 1
   \<and> \<not> intersects (store_of [logp_a, logp_c, tpsa_z]) 0 2
   \<and> \<not> intersects (store_of [logp_a, logp_c, tpsa_z]) 1 2
   \<and> \<not> intersects (store_of [logp_a, logp_c, tpsa_z]) 1 0
   \<and> \<not> intersects (store_of [logp_a, logp_c, tpsa_z]) 2 0
   \<and> \<not> intersects (store_of [logp_a, logp_c, tpsa_z]) 2 1
   \<and> map cnt (records (analyze_models_merge (store_of [logp_a, logp_c, tpsa_z]) []
                        [[0, 1, 2], [0, 1, 2]])) = [2, 2, 1, 1]"
  using merge_twice_support [of "[0, 1, 2]" "store_of [logp_a, logp_c, tpsa_z]"]
  by (simp add: logp_a_def logp_c_def tpsa_z_def store_of_def merge_one_def intersects_def
      absorb_def py_bool_def get_overlap_def)

subsection \<open>Entries of the merged list that overlap each other\<close>

lemma merge_one_extends: "\<exists>ys. snd (merge_one h features v1) = features @ ys"
  by (cases "merge_scan v1 features (h, False)") (simp add: merge_one_def)

lemma merge_features_extends: "\<exists>ys. snd (merge_features h features aux) = features @ ys"
proof (induction aux arbitrary: h features)
  case Nil
  then show ?case by simp
next
  case (Cons v1 aux)
  obtain h' features' where one: "merge_one h features v1 = (h', features')"
    by (cases "merge_one h features v1")
  obtain ys where "features' = features @ ys"
    using merge_one_extends [of h features v1] one by auto
  moreover obtain zs where "snd (merge_features h' features' aux) = features' @ zs"
    using Cons.IH by blast
  ultimately show ?case using one by simp
qed

text \<open>
  C10: there is a sequence of inputs after which the merged list holds two different
  entries of the same name with overlapping intervals. Three models report
  \<open>LogP (1,2)\<close>, \<open>LogP (3,4)\<close> and \<open>LogP (1.5,3.5)\<close>: the third record matches both
  entries, each is widened and counted on its own, to \<open>(1,3.5)\<close> and \<open>(1.5,4)\<close>, and both
  stay in the list. Merging never removes or joins entries: the list after a merge is
  the list before it with records appended.
\<close>

theorem merged_entries_overlap:
  "snd (analyze_models_merge (store_of [logp_p, logp_q, logp_r]) [] [[0], [1], [2]]) = [0, 1]
   \<and> records (analyze_models_merge (store_of [logp_p, logp_q, logp_r]) [] [[0], [1], [2]])
       = [\<lparr>name = ''LogP'', interval = (1, 3.5), ratio = 7, cnt = 2\<rparr>,
          \<lparr>name = ''LogP'', interval = (1.5, 4), ratio = 9, cnt = 2\<rparr>]
   \<and> py_bool (get_overlap (1, 3.5) (1.5, 4))
   \<and> (\<exists>ys. snd (merge_features h features aux) = features @ ys)"
proof -
  have "snd (analyze_models_merge (store_of [logp_p, logp_q, logp_r]) [] [[0], [1], [2]]) = [0, 1]
   \<and> records (analyze_models_merge (store_of [logp_p, logp_q, logp_r]) [] [[0], [1], [2]])
       = [\<lparr>name = ''LogP'', interval = (1, 3.5), ratio = 7, cnt = 2\<rparr>,
          \<lparr>name = ''LogP'', interval = (1.5, 4), ratio = 9, cnt = 2\<rparr>]"
    by (simp add: logp_p_def logp_q_def logp_r_def store_of_def merge_one_def intersects_def
        absorb_def py_bool_def get_overlap_def)
  moreover have "py_bool (get_overlap (1, 3.5) (1.5, 4))"
    by (simp add: py_bool_def get_overlap_def)
  ultimately show ?thesis using merge_features_extends by blast
qed

subsection \<open>The report\<close>

lemma map_of_factors_add:
  "map_of (factors_add val ff) =
     (map_of ff)(cnt val \<mapsto> (case map_of ff (cnt val) of None \<Rightarrow> [val] | Some vs \<Rightarrow> vs @ [val]))"
  by (induction val ff rule: factors_add.induct) (auto simp: fun_eq_iff)

lemma keys_factors_add:
  "map fst (factors_add val ff) =
     (if cnt val \<in> set (map fst ff) then map fst ff else map fst ff @ [cnt val])"
  by (induction val ff rule: factors_add.induct) auto

lemma features_factors_snoc:
  "features_factors (features @ [val]) = factors_add val (features_factors features)"
  by (simp add: features_factors_def)

lemma keys_features_factors:
  "distinct (map fst (features_factors features))
   \<and> set (map fst (features_factors features)) = cnt ` set features"
proof (induction features rule: rev_induct)
  case Nil
  then show ?case by (simp add: features_factors_def)
next
  case (snoc val features)
  then show ?case
    by (auto simp: features_factors_snoc keys_factors_add)
qed

lemma map_of_features_factors:
  "map_of (features_factors features) k =
     (if k \<in> cnt ` set features then Some (filter (\<lambda>v. cnt v = k) features) else None)"
proof (induction features rule: rev_induct)
  case Nil
  then show ?case by (simp add: features_factors_def)
next
  case (snoc val features)
  show ?case
  proof (cases "cnt val = k")
    case True
    have "k \<notin> cnt ` set features \<Longrightarrow> filter (\<lambda>v. cnt v = k) features = []"
      by (auto simp: filter_empty_conv)
    then show ?thesis
      using True snoc by (simp add: features_factors_snoc map_of_factors_add)
  next
    case False
    then show ?thesis
      using snoc by (auto simp: features_factors_snoc map_of_factors_add)
  qed
qed

lemma features_factors_entry:
  "(k, vs) \<in> set (features_factors features)
     \<longleftrightarrow> k \<in> cnt ` set features \<and> vs = filter (\<lambda>v. cnt v = k) features"
proof -
  have "distinct (map fst (features_factors features))"
    using keys_features_factors by blast
  then have "(k, vs) \<in> set (features_factors features)
     \<longleftrightarrow> map_of (features_factors features) k = Some vs"
    by simp
  then show ?thesis by (auto simp: map_of_features_factors)
qed


lemma map_err_Inr: "\<forall>x\<in>set xs. f x = Inr (g x) \<Longrightarrow> map_err f xs = Inr (map g xs)"
  by (induction xs) simp_all

lemma sorted_by_ratio_desc: "sorted_wrt (\<lambda>a b. ratio b \<le> ratio a) (sorted_by_ratio vals)"
proof -
  have "sorted (map (\<lambda>x. - ratio x) (sort_key (\<lambda>x. - ratio x) vals))"
    by (rule sorted_sort_key)
  then show ?thesis by (simp add: sorted_by_ratio_def sorted_wrt_map)
qed

lemma report_group_ok:
  assumes "\<forall>v\<in>set vals. cnt v = key" and "key \<noteq> 0"
  shows "report_group (key, vals) =
     Inr (key, map (\<lambda>v. (name v, fst (interval v), snd (interval v),
                          ratio v / real_of_int key)) (sorted_by_ratio vals))"
proof -
  have "\<forall>v\<in>set (sorted_by_ratio vals).
          report_line v = Inr (name v, fst (interval v), snd (interval v),
                               ratio v / real_of_int key)"
    using assms by (simp add: sorted_by_ratio_def report_line_def)
  then have "map_err report_line (sorted_by_ratio vals) =
      Inr (map (\<lambda>v. (name v, fst (interval v), snd (interval v),
                        ratio v / real_of_int key)) (sorted_by_ratio vals))"
    by (rule map_err_Inr)
  then show ?thesis by (simp add: report_group_def)
qed

text \<open>
  C6: for a merged list in which no record has the count \<open>0\<close> the report is printed, and
  it is grouped by count: the keys come in strictly descending order and are exactly the
  counts that occur; the group of a key holds exactly the records with that count, in
  descending order of their summed ratio; and the value on the line of a record is its
  ratio divided by its count.
\<close>

theorem report_grouped_by_support:
  assumes "\<forall>v\<in>set features. cnt v \<noteq> 0"
  shows "\<exists>groups. analyze_models_report features = Inr groups
     \<and> sorted_wrt (\<lambda>a b. b < a) (map fst groups)
     \<and> set (map fst groups) = cnt ` set features
     \<and> (\<forall>(key, lines)\<in>set groups. \<exists>vals.
            mset vals = mset (filter (\<lambda>v. cnt v = key) features)
          \<and> sorted_wrt (\<lambda>a b. ratio b \<le> ratio a) vals
          \<and> lines = map (\<lambda>v. (name v, fst (interval v), snd (interval v),
                                 ratio v / real_of_int key)) vals)"
proof -
  let ?ff = "features_factors features"
  let ?line = "\<lambda>key v. (name v, fst (interval v), snd (interval v), ratio v / real_of_int key)"
  let ?g = "\<lambda>g. (fst g, map (?line (fst g)) (sorted_by_ratio (snd g)))"
  let ?groups = "map ?g (rev (sort_key fst ?ff))"
  have entry: "\<forall>g\<in>set ?ff. fst g \<noteq> 0 \<and> snd g = filter (\<lambda>v. cnt v = fst g) features"
  proof
    fix g assume "g \<in> set ?ff"
    then have "(fst g, snd g) \<in> set ?ff" by simp
    then have "fst g \<in> cnt ` set features \<and> snd g = filter (\<lambda>v. cnt v = fst g) features"
      by (simp only: features_factors_entry)
    then show "fst g \<noteq> 0 \<and> snd g = filter (\<lambda>v. cnt v = fst g) features"
      using assms by auto
  qed
  have "\<forall>g\<in>set (rev (sort_key fst ?ff)). report_group g = Inr (?g g)"
  proof
    fix g assume "g \<in> set (rev (sort_key fst ?ff))"
    then have g: "fst g \<noteq> 0" "snd g = filter (\<lambda>v. cnt v = fst g) features"
      using entry by auto
    have "report_group (fst g, snd g) = Inr (fst g, map (?line (fst g)) (sorted_by_ratio (snd g)))"
      by (rule report_group_ok) (use g in auto)
    then show "report_group g = Inr (?g g)" by simp
  qed
  then have res: "analyze_models_report features = Inr ?groups"
    by (simp only: analyze_models_report_def map_err_Inr)
  have keys: "map fst ?groups = rev (map fst (sort_key fst ?ff))"
    by (simp add: rev_map comp_def)
  have "mset (map fst (sort_key fst ?ff)) = mset (map fst ?ff)"
    by simp
  then have "distinct (map fst (sort_key fst ?ff))"
    using keys_features_factors [of features] mset_eq_imp_distinct_iff by blast
  then have "sorted_wrt (<) (map fst (sort_key fst ?ff))"
    by (simp only: strict_sorted_iff sorted_sort_key)
  then have desc: "sorted_wrt (\<lambda>a b. b < a) (map fst ?groups)"
    by (simp only: keys sorted_wrt_rev)
  have dom: "set (map fst ?groups) = cnt ` set features"
    using keys_features_factors [of features] by (simp only: keys set_rev set_map set_sort)
  have grp: "\<forall>(key, lines)\<in>set ?groups. \<exists>vals.
            mset vals = mset (filter (\<lambda>v. cnt v = key) features)
          \<and> sorted_wrt (\<lambda>a b. ratio b \<le> ratio a) vals
          \<and> lines = map (?line key) vals"
  proof (clarify)
    fix key lines assume "(key, lines) \<in> set ?groups"
    then obtain g where g: "g \<in> set ?ff" and k: "key = fst g"
      and l: "lines = map (?line (fst g)) (sorted_by_ratio (snd g))"
      by auto
    have "snd g = filter (\<lambda>v. cnt v = key) features" using entry g k by simp
    then have "mset (sorted_by_ratio (snd g)) = mset (filter (\<lambda>v. cnt v = key) features)"
      by (simp add: sorted_by_ratio_def)
    then show "\<exists>vals. mset vals = mset (filter (\<lambda>v. cnt v = key) features)
          \<and> sorted_wrt (\<lambda>a b. ratio b \<le> ratio a) vals
          \<and> lines = map (?line key) vals"
      using sorted_by_ratio_desc [of "snd g"] k l by blast
  qed
  show ?thesis using res desc dom grp by blast
qed

theorem report_grouped_by_support_witness:
  "0 \<notin> set (map cnt report_example)
   \<and> analyze_models_report report_example
       = Inr [(3, [(''TPSA'', 1, 2, 2)]),
              (2, [(''LogP'', 1.5, 4, 4.5), (''LogP'', 1, 3.5, 3.5)]),
              (1, [(''LogP'', 5, 6, 2), (''TPSA'', 7, 7, 1)])]"
  using report_grouped_by_support [of report_example]
  by (simp add: report_example_def analyze_models_report_def features_factors_def
      report_group_def report_line_def sorted_by_ratio_def)

section \<open>Theorems about the scorer\<close>

subsection \<open>The bin of a value\<close>

lemma bind_err_simps [simp]:
  "bind_err (Inl e) f = Inl e"
  "bind_err (Inr x) f = f x"
  by (simp_all add: bind_err_def)



subsection \<open>Scenario A, end to end\<close>

text \<open>
  The raw descriptor \<open>8\<close> of a feature with the range \<open>0\<close> to \<open>10\<close> is normalized to
  \<open>0.8\<close>, which lies in the bin \<open>1\<close> of two, and the score is \<open>ln (0.5/0.1) + ln 1\<close>.
\<close>

lemma scenario_A_normalized:
  "vector_of (get_normalized_features to_float_ex table_a model_a) ''f1'' = Inr (Some [Fin 0.8])"
  by code_simp

lemma scenario_A_score:
  "score_feature_vector [Fin 0.8] (probabilities model_a) (cnt_bins model_a) = Inr (ln 5)"
  by (simp add: score_feature_vector_def model_a_def feature_term_def py_index_def
      get_bin_def log_ratio_def)

subsection \<open>Scoring a vector with components outside the unit interval\<close>












subsection \<open>Molecules without a scored fragment\<close>





subsection \<open>Normalizing a table\<close>

lemma read_rows_data:
  assumes "ixs \<noteq> []"
    and "\<forall>row\<in>set data. row \<noteq> [] \<and> (\<forall>j\<in>set ixs. j < length row)"
  shows "read_rows fn data
           (ixs, map (\<lambda>j. map (\<lambda>r. r ! j) seen) ixs, map (\<lambda>r. r ! 0) seen)
         = Inr (ixs, map (\<lambda>j. map (\<lambda>r. r ! j) (seen @ data)) ixs,
                map (\<lambda>r. r ! 0) (seen @ data))"
  using assms(2)
proof (induction data arbitrary: seen)
  case Nil
  then show ?case by simp
next
  case (Cons row data)
  have row: "row \<noteq> []" "list_all (\<lambda>j. j < length row) ixs"
    using Cons.prems by (auto simp: list_all_iff)
  have "read_row fn row (ixs, map (\<lambda>j. map (\<lambda>r. r ! j) seen) ixs, map (\<lambda>r. r ! 0) seen)
      = Inr (ixs, map (\<lambda>j. map (\<lambda>r. r ! j) (seen @ [row])) ixs,
             map (\<lambda>r. r ! 0) (seen @ [row]))"
    using row assms(1) by (simp add: zip_map1 zip_same_conv_map)
  moreover have "read_rows fn data
           (ixs, map (\<lambda>j. map (\<lambda>r. r ! j) (seen @ [row])) ixs,
            map (\<lambda>r. r ! 0) (seen @ [row]))
         = Inr (ixs, map (\<lambda>j. map (\<lambda>r. r ! j) ((seen @ [row]) @ data)) ixs,
                map (\<lambda>r. r ! 0) ((seen @ [row]) @ data))"
    using Cons.prems by (intro Cons.IH) simp
  ultimately show ?case by simp
qed

lemma read_rows_table:
  assumes "header \<noteq> []"
    and "sel = filter (\<lambda>ix. header ! ix \<in> set fn) [0..<length header]"
    and "sel \<noteq> []"
    and "\<forall>row\<in>set data. length row = length header"
  shows "read_rows fn (header # data) ([], [], [])
         = Inr (sel, map (\<lambda>j. map (\<lambda>r. r ! j) data) sel, map (\<lambda>r. r ! 0) data)"
proof -
  have head: "read_row fn header ([], [], []) = Inr (sel, map (\<lambda>j. map (\<lambda>r. r ! j) []) sel, map (\<lambda>r. r ! 0) [])"
    using assms(1,2) by (simp add: Let_def)
  have "\<forall>j\<in>set sel. j < length header"
    using assms(2) by auto
  then have rows: "\<forall>row\<in>set data. row \<noteq> [] \<and> (\<forall>j\<in>set sel. j < length row)"
    using assms(1,4) by auto
  show ?thesis
    using head read_rows_data [OF assms(3) rows, of fn "[]"] by simp
qed

lemma impute_col_ok:
  "ix < length imps \<Longrightarrow>
   impute_col imps ix col = Inr (map (\<lambda>x. if x = NaN then Fin (imps ! ix) else x) col)"
  unfolding impute_col_def by (rule map_err_Inr) simp

lemma impute_all_ok:
  assumes "k \<le> length imps"
  shows "map_err (\<lambda>ix. impute_col imps ix (g ix)) [0..<k]
         = Inr (map (\<lambda>ix. map (\<lambda>x. if x = NaN then Fin (imps ! ix) else x) (g ix)) [0..<k])"
  by (rule map_err_Inr) (use assms in \<open>simp add: impute_col_ok\<close>)

lemma clip_rows_ok:
  assumes "distinct ixs" and "\<forall>ix\<in>set ixs. ix < length fm \<and> ix < length mx"
  shows "clip_rows mn mx ixs fm
         = Inr (map (\<lambda>i. if i \<in> set ixs then map (np_clip (mn ! i) (mx ! i)) (fm ! i) else fm ! i)
                  [0..<length fm])"
  using assms
proof (induction ixs arbitrary: fm)
  case Nil
  then show ?case by (simp add: map_nth)
next
  case (Cons ix ixs)
  let ?fm = "fm[ix := map (np_clip (mn ! ix) (mx ! ix)) (fm ! ix)]"
  have ix: "ix < length fm" "ix < length mx" "ix \<notin> set ixs" "distinct ixs"
    using Cons.prems by auto
  have "clip_rows mn mx ixs ?fm
      = Inr (map (\<lambda>i. if i \<in> set ixs then map (np_clip (mn ! i) (mx ! i)) (?fm ! i) else ?fm ! i)
               [0..<length ?fm])"
    using Cons.prems by (intro Cons.IH) auto
  also have "map (\<lambda>i. if i \<in> set ixs then map (np_clip (mn ! i) (mx ! i)) (?fm ! i) else ?fm ! i)
               [0..<length ?fm]
      = map (\<lambda>i. if i \<in> set (ix # ixs) then map (np_clip (mn ! i) (mx ! i)) (fm ! i) else fm ! i)
               [0..<length fm]"
    using ix by (auto simp: nth_list_update)
  finally show ?case using ix by simp
qed

lemma scale_rows_ok:
  assumes "length mn = k" and "length mx = k" and "\<forall>row\<in>set rows. length row = k"
  shows "scale_rows mn mx k rows
         = Inr (map (\<lambda>row. map (\<lambda>i. np_div (np_sub (row ! i) (mn ! i)) (mx ! i - mn ! i)) [0..<k])
                  rows)"
proof -
  have "map2 np_div (map2 np_sub row mn) (map2 (-) mx mn)
      = map (\<lambda>i. np_div (np_sub (row ! i) (mn ! i)) (mx ! i - mn ! i)) [0..<k]"
    if "length row = k" for row
    using that assms(1,2) by (auto simp: list_eq_iff_nth_eq)
  then show ?thesis
    using assms by (simp add: scale_rows_def bc_shape_def stretch_def cong: map_cong)
qed


lemma np_transpose_matrix:
  "np_transpose (length data) (map (\<lambda>i. map (f i) data) xs)
   = map (\<lambda>r. map (\<lambda>i. f i r) xs) data"
proof -
  have "np_transpose (length data) (map (\<lambda>i. map (f i) data) xs)
      = map (\<lambda>j. map (\<lambda>i. f i (data ! j)) xs) [0..<length data]"
    unfolding np_transpose_def by (rule map_cong) (simp_all add: comp_def)
  also have "\<dots> = map (\<lambda>r. map (\<lambda>i. f i r) xs) (map ((!) data) [0..<length data])"
    by (simp only: map_map comp_def)
  also have "\<dots> = map (\<lambda>r. map (\<lambda>i. f i r) xs) data"
    by (simp only: map_nth)
  finally show ?thesis .
qed


lemma get_normalized_features_table:
  assumes "header \<noteq> []"
    and "sel = filter (\<lambda>ix. header ! ix \<in> set (features_names model)) [0..<length header]"
    and "sel \<noteq> []"
    and "\<forall>row\<in>set data. length row = length header"
    and "length (mins (normalization model)) = length sel"
    and "length (maxs (normalization model)) = length sel"
    and "length (imputation_values (normalization model)) = length sel"
  shows "get_normalized_features to_float (header # data) model
         = Inr (dict_of (zip (map (\<lambda>row. row ! 0) data)
                  (map (\<lambda>row. map (\<lambda>i. normalize_cell to_float (normalization model) i
                                           (row ! (sel ! i)))
                               [0..<length sel]) data)))"
proof -
  define nz where "nz = normalization model"
  define k where "k = length sel"
  define imp where "imp = (\<lambda>i x. if x = NaN then Fin (imputation_values nz ! i) else x)"
  define clip where "clip = (\<lambda>i. np_clip (mins nz ! i) (maxs nz ! i))"
  define cols where "cols = map (\<lambda>j. map (\<lambda>r. r ! j) data) sel"
  define frags where "frags = map (\<lambda>r. r ! 0) data"
  define F where "F = map (\<lambda>i. map (\<lambda>r. imp i (to_float (r ! (sel ! i)))) data) [0..<k]"
  define C where "C = (\<lambda>i r. clip i (imp i (to_float (r ! (sel ! i)))))"
  define fm where "fm = map (\<lambda>i. map (C i) data) [0..<k]"
  define rows where "rows = map (\<lambda>r. map (\<lambda>i. C i r) [0..<k]) data"
  define out where "out = map (\<lambda>row. map (\<lambda>i. normalize_cell to_float nz i (row ! (sel ! i))) [0..<k]) data"
  have len: "length (mins nz) = k" "length (maxs nz) = k" "length (imputation_values nz) = k"
    using assms(5-7) by (simp_all add: nz_def k_def)
  have lcols: "length cols = k" by (simp add: cols_def k_def)
  have read: "read_rows (features_names model) (header # data) ([], [], [])
      = Inr (sel, cols, frags)"
    unfolding cols_def frags_def by (rule read_rows_table [OF assms(1-4)])
  have "map_err (\<lambda>ix. impute_col (imputation_values nz) ix (map to_float (cols ! ix))) [0..<k]
      = Inr (map (\<lambda>ix. map (imp ix) (map to_float (cols ! ix))) [0..<k])"
    unfolding imp_def by (rule impute_all_ok) (simp add: len)
  moreover have "map (\<lambda>ix. map (imp ix) (map to_float (cols ! ix))) [0..<k] = F"
    unfolding F_def by (rule map_cong) (simp_all add: cols_def k_def)
  ultimately have imp: "map_err (\<lambda>ix. impute_col (imputation_values nz) ix
        (map to_float (cols ! ix))) [0..<length cols] = Inr F"
    by (simp only: lcols)
  have lF: "length F = k" by (simp add: F_def)
  have "clip_rows (mins nz) (maxs nz) [0..<k] F
      = Inr (map (\<lambda>i. if i \<in> set [0..<k]
                        then map (np_clip (mins nz ! i) (maxs nz ! i)) (F ! i) else F ! i)
               [0..<length F])"
    by (rule clip_rows_ok) (simp_all add: lF len)
  moreover have "map (\<lambda>i. if i \<in> set [0..<k]
                        then map (np_clip (mins nz ! i) (maxs nz ! i)) (F ! i) else F ! i)
               [0..<length F] = fm"
    unfolding fm_def lF by (rule map_cong) (simp_all add: F_def C_def clip_def)
  ultimately have clip: "clip_rows (mins nz) (maxs nz) [0..<length (mins nz)] F = Inr fm"
    by (simp only: len)
  have lfm: "length fm = k" by (simp add: fm_def)
  have tr: "np_transpose (length frags) fm = rows"
    unfolding fm_def rows_def frags_def length_map by (rule np_transpose_matrix)
  have "scale_rows (mins nz) (maxs nz) k rows
      = Inr (map (\<lambda>row. map (\<lambda>i. np_div (np_sub (row ! i) (mins nz ! i))
                                      (maxs nz ! i - mins nz ! i)) [0..<k]) rows)"
    by (rule scale_rows_ok) (simp_all add: len rows_def)
  moreover have "map (\<lambda>row. map (\<lambda>i. np_div (np_sub (row ! i) (mins nz ! i))
                                      (maxs nz ! i - mins nz ! i)) [0..<k]) rows = out"
  proof -
    have "map (\<lambda>i. np_div (np_sub (map (\<lambda>i. C i r) [0..<k] ! i) (mins nz ! i))
                      (maxs nz ! i - mins nz ! i)) [0..<k]
        = map (\<lambda>i. normalize_cell to_float nz i (r ! (sel ! i))) [0..<k]" for r
      by (rule map_cong) (simp_all add: C_def clip_def imp_def normalize_cell_def)
    then show ?thesis by (simp add: rows_def out_def comp_def)
  qed
  ultimately have scale: "scale_rows (mins nz) (maxs nz) (length fm)
        (np_transpose (length frags) fm) = Inr out"
    by (simp only: tr lfm)
  have "get_normalized_features to_float (header # data) model = Inr (dict_of (zip frags out))"
    unfolding get_normalized_features_def nz_def [symmetric]
    by (simp only: read bind_err_simps prod.case imp clip scale)
  then show ?thesis by (simp only: frags_def out_def nz_def k_def)
qed

lemma selected_header_cells:
  "map (\<lambda>ix. header ! ix) (filter (\<lambda>ix. Q (header ! ix)) [0..<length header]) = filter Q header"
proof (induction header rule: rev_induct)
  case Nil
  then show ?case by simp
next
  case (snoc cell header)
  let ?sel = "filter (\<lambda>ix. Q (header ! ix)) [0..<length header]"
  have old: "filter (\<lambda>ix. Q ((header @ [cell]) ! ix)) [0..<length header] = ?sel"
    by (rule filter_cong) (simp_all add: nth_append)
  have "map (\<lambda>ix. (header @ [cell]) ! ix) ?sel = map (\<lambda>ix. header ! ix) ?sel"
    by (rule map_cong) (simp_all add: nth_append)
  then show ?case using old snoc by simp
qed

lemma normalize_cell_degenerate:
  assumes "mins nz ! i = maxs nz ! i"
  shows "normalize_cell to_float nz i cell = NaN"
  using assms by (cases "to_float cell") (simp_all add: normalize_cell_def)


text \<open>
  C3, as stated: the features are processed in the order of \<^verbatim>\<open>feature_names\<close>, each with
  the column that bears its name, also when the table orders its columns differently.
  This fails. The model lists \<open>A\<close> (range \<open>0\<close> to \<open>1\<close>) before \<open>B\<close> (range \<open>0\<close> to
  \<open>10\<close>), the table lists \<open>B\<close> before \<open>A\<close>, and the fragment has \<open>A = 0.5\<close> and
  \<open>B = 5\<close>, which their own parameters both scale to \<open>0.5\<close>. The function scales the
  column \<open>B\<close> with the parameters of \<open>A\<close> and the column \<open>A\<close> with those of \<open>B\<close>, and
  returns \<open>[1, 0.05]\<close>.
\<close>

theorem get_normalized_features_order_counterexample:
  "features_names model_ab = [''A'', ''B'']
   \<and> table_ba = [[''Name'', ''B'', ''A''], [''f1'', ''5'', ''0.5'']]
   \<and> normalize_cell to_float_ex (normalization model_ab) 0 ''0.5'' = Fin 0.5
   \<and> normalize_cell to_float_ex (normalization model_ab) 1 ''5'' = Fin 0.5
   \<and> vector_of (get_normalized_features to_float_ex table_ba model_ab) ''f1''
       = Inr (Some [Fin 1, Fin 0.05])"
  by code_simp

text \<open>
  C3, amended: the function selects the columns whose header cell is one of
  \<^verbatim>\<open>feature_names\<close>, in the order of the table from left to right, and applies the
  imputation value, minimum and maximum at position \<open>i\<close> to the \<open>i\<close>-th selected column.
  When the header cells that are feature names, read from left to right, are the list
  \<^verbatim>\<open>feature_names\<close> itself (the table lists the features of the model in the order of
  the model), the \<open>i\<close>-th selected column is the one named \<^verbatim>\<open>feature_names[i]\<close>, and
  every feature is processed with the column that bears its name. Here the header is the
  first row of the table, every other row is as long as the header, and the
  normalization has one entry per feature.
\<close>

theorem get_normalized_features_table_order:
  assumes "header \<noteq> []" and "features_names model \<noteq> []"
    and "filter (\<lambda>cell. cell \<in> set (features_names model)) header = features_names model"
    and "\<forall>row\<in>set data. length row = length header"
    and "length (mins (normalization model)) = length (features_names model)"
    and "length (maxs (normalization model)) = length (features_names model)"
    and "length (imputation_values (normalization model)) = length (features_names model)"
    and "sel = filter (\<lambda>ix. header ! ix \<in> set (features_names model)) [0..<length header]"
  shows "get_normalized_features to_float (header # data) model
         = Inr (dict_of (zip (map (\<lambda>row. row ! 0) data)
                  (map (\<lambda>row. map (\<lambda>i. normalize_cell to_float (normalization model) i
                                           (row ! (sel ! i)))
                               [0..<length (features_names model)]) data)))
     \<and> length sel = length (features_names model)
     \<and> (\<forall>i<length (features_names model).
           sel ! i < length header \<and> header ! (sel ! i) = features_names model ! i)"
proof -
  have cells: "map ((!) header) sel = features_names model"
    using assms(3)
      selected_header_cells [of header "\<lambda>cell. cell \<in> set (features_names model)"]
    by (simp add: assms(8))
  then have len: "length sel = length (features_names model)"
    by (metis length_map)
  then have ne: "sel \<noteq> []" using assms(2) by auto
  have res: "get_normalized_features to_float (header # data) model
         = Inr (dict_of (zip (map (\<lambda>row. row ! 0) data)
                  (map (\<lambda>row. map (\<lambda>i. normalize_cell to_float (normalization model) i
                                           (row ! (sel ! i)))
                               [0..<length sel]) data)))"
    by (rule get_normalized_features_table [OF assms(1) assms(8) ne assms(4)])
       (simp_all add: len assms(5-7))
  have "sel ! i < length header \<and> header ! (sel ! i) = features_names model ! i"
    if "i < length (features_names model)" for i
  proof -
    have i: "i < length sel" using that len by simp
    then have "sel ! i \<in> set sel" by simp
    then have "sel ! i < length header" by (simp add: assms(8))
    moreover have "map ((!) header) sel ! i = header ! (sel ! i)"
      using i by simp
    ultimately show ?thesis using cells by simp
  qed
  then show ?thesis using res len by simp
qed

theorem get_normalized_features_table_order_witness:
  "filter (\<lambda>cell. cell \<in> set (features_names model_ab)) [''Name'', ''A'', ''B'']
     = features_names model_ab
   \<and> vector_of (get_normalized_features to_float_ex table_ab model_ab) ''f1''
       = Inr (Some [Fin 0.5, Fin 0.5])
   \<and> [''Name'', ''A'', ''B''] ! 1 = features_names model_ab ! 0
   \<and> [''Name'', ''A'', ''B''] ! 2 = features_names model_ab ! 1"
proof -
  have ev: "vector_of (get_normalized_features to_float_ex table_ab model_ab) ''f1''
       = Inr (Some [Fin 0.5, Fin 0.5])"
    by code_simp
  have f: "filter (\<lambda>cell. cell \<in> set (features_names model_ab)) [''Name'', ''A'', ''B'']
     = features_names model_ab"
    by (simp add: model_ab_def)
  have s: "[1, 2] = filter (\<lambda>ix. [''Name'', ''A'', ''B''] ! ix \<in> set (features_names model_ab))
                      [0..<length [''Name'', ''A'', ''B'']]"
    by code_simp
  have "\<forall>i<length (features_names model_ab).
           [1, 2] ! i < length [''Name'', ''A'', ''B'']
           \<and> [''Name'', ''A'', ''B''] ! ([1, 2] ! i) = features_names model_ab ! i"
    using get_normalized_features_table_order
      [of "[''Name'', ''A'', ''B'']" model_ab "[[''f1'', ''0.5'', ''5'']]" "[1, 2]" to_float_ex,
       OF _ _ f _ _ _ _ s]
    by (simp add: model_ab_def)
  then have "[''Name'', ''A'', ''B''] ! ([1, 2] ! 0) = features_names model_ab ! 0
      \<and> [''Name'', ''A'', ''B''] ! ([1, 2] ! 1) = features_names model_ab ! 1"
    by (simp add: model_ab_def)
  then show ?thesis using ev f by simp
qed

text \<open>
  C9, as stated: normalization fails with a domain error when a feature has equal
  minimum and maximum, by an explicit guard before the scaling. There is no guard, and
  numpy's division by zero raises nothing: for the model with the minimum and the
  maximum \<open>5\<close> the function returns, and the vector of the fragment is \<open>[NaN]\<close>.
\<close>

theorem get_normalized_features_degenerate_counterexample:
  "mins (normalization model_degenerate) ! 0 = maxs (normalization model_degenerate) ! 0
   \<and> vector_of (get_normalized_features to_float_ex table_a model_degenerate) ''f1''
       = Inr (Some [NaN])"
  by code_simp

text \<open>
  C9, amended: when the feature at position \<open>i\<close> has equal minimum and maximum,
  normalization does not fail: the function returns, and the component \<open>i\<close> of the
  vector of every fragment is NaN, the result of \<open>0/0\<close>. The failure comes later, in
  \<^verbatim>\<open>score_feature_vector\<close>, where the floor of a NaN raises \<^verbatim>\<open>ValueError\<close>. Here the header
  is the first row of the table and selects at least one column, every other row is as
  long as the header, and the normalization has one entry per selected column.
\<close>

theorem get_normalized_features_degenerate:
  assumes "header \<noteq> []"
    and "sel = filter (\<lambda>ix. header ! ix \<in> set (features_names model)) [0..<length header]"
    and "sel \<noteq> []"
    and "\<forall>row\<in>set data. length row = length header"
    and "length (mins (normalization model)) = length sel"
    and "length (maxs (normalization model)) = length sel"
    and "length (imputation_values (normalization model)) = length sel"
    and "i < length sel"
    and "mins (normalization model) ! i = maxs (normalization model) ! i"
  shows "(\<exists>vectors. get_normalized_features to_float (header # data) model
            = Inr (dict_of (zip (map (\<lambda>row. row ! 0) data) vectors))
          \<and> length vectors = length data
          \<and> (\<forall>v\<in>set vectors. length v = length sel \<and> v ! i = NaN))
     \<and> bin_index NaN c = Inl ValueError"
proof -
  let ?vectors = "map (\<lambda>row. map (\<lambda>i. normalize_cell to_float (normalization model) i
                                           (row ! (sel ! i)))
                               [0..<length sel]) data"
  have "get_normalized_features to_float (header # data) model
         = Inr (dict_of (zip (map (\<lambda>row. row ! 0) data) ?vectors))"
    by (rule get_normalized_features_table [OF assms(1-7)])
  moreover have "length ?vectors = length data" by simp
  moreover have "\<forall>v\<in>set ?vectors. length v = length sel \<and> v ! i = NaN"
    using assms(8) normalize_cell_degenerate [OF assms(9)] by auto
  ultimately show ?thesis by (intro conjI exI [of _ ?vectors]) simp_all
qed

theorem get_normalized_features_degenerate_witness:
  "mins (normalization model_degenerate) ! 0 = maxs (normalization model_degenerate) ! 0
   \<and> vector_of (get_normalized_features to_float_ex table_a model_degenerate) ''f1''
       = Inr (Some [NaN])
   \<and> score_feature_vector [NaN] (probabilities model_degenerate) (cnt_bins model_degenerate)
       = Inl ValueError"
proof -
  have ev: "vector_of (get_normalized_features to_float_ex table_a model_degenerate) ''f1''
       = Inr (Some [NaN])"
    by code_simp
  have sc: "score_feature_vector [NaN] (probabilities model_degenerate)
        (cnt_bins model_degenerate) = Inl ValueError"
    by (simp add: score_feature_vector_def feature_term_def)
  have s: "[1] = filter (\<lambda>ix. [''Name'', ''A''] ! ix \<in> set (features_names model_degenerate))
                      [0..<length [''Name'', ''A'']]"
    by code_simp
  have eq: "mins (normalization model_degenerate) ! 0 = maxs (normalization model_degenerate) ! 0"
    by (simp add: model_degenerate_def model_a_def)
  have "bin_index NaN (cnt_bins model_degenerate) = Inl ValueError"
    using get_normalized_features_degenerate
      [of "[''Name'', ''A'']" "[1]" model_degenerate "[[''f1'', ''8'']]" 0 to_float_ex
          "cnt_bins model_degenerate", OF _ s _ _ _ _ _ _ eq]
    by (simp add: model_degenerate_def model_a_def)
  then show ?thesis using ev sc eq by simp
qed

end
